theory Spec2Isabelle
  imports Main "HOL-Library.Signed_Division"
begin

section \<open>The task scheduler of Scheduler.cpp\<close>

text \<open>
  The Scheduler keeps three vectors of Tasks (staged, active, finished) and an id
  counter. Vectors are lists, the object is a record that every member function takes
  and returns, and what a member function writes to \<open>std::cout\<close> is returned beside
  the state as a string. C++ \<open>int\<close> and \<open>time_t\<close> values are \<open>int\<close>: the only
  arithmetic on them is \<open>nextId++\<close>, whose overflow is undefined in C++ and lies
  \<open>2 ^ 31 - 1\<close> calls of addTask away, and the difference of two clock readings.
\<close>

subsection \<open>Task\<close>

datatype Status = Staged | Active | Finished

record Task =
  task_id :: int
  description :: string
  estimate :: int
  status :: Status
  startTime :: int
  finishTime :: int

text \<open>
  Modelled from the spec: the class Task (its header and implementation are not part of
  the source file). The constructor "produces a Task in Staged state with both timestamps
  absent"; printLog tests a timestamp against 0, so an absent timestamp is the value 0.
\<close>

definition Task_ctor :: "int \<Rightarrow> string \<Rightarrow> int \<Rightarrow> Task" where
  "Task_ctor i d e =
     \<lparr>task_id = i, description = d, estimate = e, status = Staged,
      startTime = 0, finishTime = 0\<rparr>"

text \<open>
  Modelled from the spec: markActive "stamps startTime with the current wall-clock
  instant (seconds) and sets status to Active". The clock reading is the argument
  \<open>now\<close>.
\<close>

definition markActive :: "int \<Rightarrow> Task \<Rightarrow> Task" where
  "markActive now t = t\<lparr>startTime := now, status := Active\<rparr>"

text \<open>
  Modelled from the spec: markFinished "stamps finishTime with the current wall-clock
  instant and sets status to Finished".
\<close>

definition markFinished :: "int \<Rightarrow> Task \<Rightarrow> Task" where
  "markFinished now t = t\<lparr>finishTime := now, status := Finished\<rparr>"

text \<open>
  The rendering getDetails of a Task is not fixed by the source file; every function
  that prints a Task takes the rendering as its first argument \<open>gd\<close>.
\<close>

subsection \<open>Console output\<close>

definition nl :: string where
  "nl = [CHR 0x0A]"

text \<open>Decimal rendering, as \<open>operator<<\<close> gives for integers.\<close>

fun show_nat :: "nat \<Rightarrow> string" where
  "show_nat n =
     (if n < 10 then [''0123456789'' ! n]
      else show_nat (n div 10) @ [''0123456789'' ! (n mod 10)])"

declare show_nat.simps [simp del]

definition show_int :: "int \<Rightarrow> string" where
  "show_int i = (if i < 0 then CHR ''-'' # show_nat (nat (- i)) else show_nat (nat i))"

subsection \<open>Scheduler\<close>

record Scheduler =
  nextId :: int
  stagedTasks :: "Task list"
  activeTasks :: "Task list"
  finishedLog :: "Task list"

definition Scheduler_ctor :: Scheduler where
  "Scheduler_ctor = \<lparr>nextId = 1, stagedTasks = [], activeTasks = [], finishedLog = []\<rparr>"

definition addTask :: "string \<Rightarrow> int \<Rightarrow> Scheduler \<Rightarrow> Scheduler \<times> string" where
  "addTask d e s =
     (let t = Task_ctor (nextId s) d e;
          s1 = s\<lparr>nextId := nextId s + 1\<rparr>;
          s2 = s1\<lparr>stagedTasks := stagedTasks s1 @ [t]\<rparr>
      in (s2, ''Added task [#'' @ show_int (task_id t) @ ''] to staged tasks.'' @ nl))"

text \<open>
  findTaskById scans from the head and returns a pointer to the first element with the
  id, or the null pointer. The pointer is the element's index.
\<close>

fun findTaskById :: "int \<Rightarrow> Task list \<Rightarrow> nat option" where
  "findTaskById i [] = None"
| "findTaskById i (t # ts) =
     (if task_id t = i then Some 0 else map_option Suc (findTaskById i ts))"

text \<open>The erase/remove\_if idiom: every element with the id goes.\<close>

definition erase_id :: "int \<Rightarrow> Task list \<Rightarrow> Task list" where
  "erase_id i ts = filter (\<lambda>x. \<not> task_id x = i) ts"

definition startTask :: "int \<Rightarrow> int \<Rightarrow> Scheduler \<Rightarrow> Scheduler \<times> string" where
  "startTask i now s =
     (case findTaskById i (stagedTasks s) of
        None \<Rightarrow> (s, ''Task [#'' @ show_int i @ ''] not found in staged tasks.'' @ nl)
      | Some k \<Rightarrow>
          (let s1 = s\<lparr>stagedTasks := (stagedTasks s)[k := markActive now (stagedTasks s ! k)]\<rparr>;
               s2 = s1\<lparr>activeTasks := activeTasks s1 @ [stagedTasks s1 ! k]\<rparr>;
               s3 = s2\<lparr>stagedTasks := erase_id i (stagedTasks s2)\<rparr>
           in (s3, ''Started task [#'' @ show_int i @ ''].'' @ nl)))"

definition finishTask :: "int \<Rightarrow> int \<Rightarrow> Scheduler \<Rightarrow> Scheduler \<times> string" where
  "finishTask i now s =
     (case findTaskById i (activeTasks s) of
        None \<Rightarrow> (s, ''Task [#'' @ show_int i @ ''] not found in active tasks.'' @ nl)
      | Some k \<Rightarrow>
          (let s1 = s\<lparr>activeTasks := (activeTasks s)[k := markFinished now (activeTasks s ! k)]\<rparr>;
               s2 = s1\<lparr>finishedLog := finishedLog s1 @ [activeTasks s1 ! k]\<rparr>;
               s3 = s2\<lparr>activeTasks := erase_id i (activeTasks s2)\<rparr>
           in (s3, ''Finished task [#'' @ show_int i @ ''].'' @ nl)))"

text \<open>The range-for loop of the two task views: one line per Task.\<close>

fun print_tasks :: "(Task \<Rightarrow> string) \<Rightarrow> Task list \<Rightarrow> string" where
  "print_tasks gd [] = []"
| "print_tasks gd (t # ts) = gd t @ nl @ print_tasks gd ts"

definition viewStagedTasks :: "(Task \<Rightarrow> string) \<Rightarrow> Scheduler \<Rightarrow> string" where
  "viewStagedTasks gd s =
     ''--- Staged Tasks ('' @ show_nat (length (stagedTasks s)) @ '') ---'' @ nl @
     (if stagedTasks s = [] then ''(none)'' @ nl else print_tasks gd (stagedTasks s))"

definition viewActiveTasks :: "(Task \<Rightarrow> string) \<Rightarrow> Scheduler \<Rightarrow> string" where
  "viewActiveTasks gd s =
     ''--- Active Tasks ('' @ show_nat (length (activeTasks s)) @ '') ---'' @ nl @
     (if activeTasks s = [] then ''(none)'' @ nl else print_tasks gd (activeTasks s))"

text \<open>
  The seconds between two clock readings as printLog computes them, the cast to
  \<open>long long\<close> of \<open>difftime\<close>. The \<open>double\<close> that \<open>difftime\<close> returns is the exact
  difference for readings up to \<open>2 ^ 53\<close> seconds apart.
\<close>

definition difftime :: "int \<Rightarrow> int \<Rightarrow> int" where
  "difftime time1 time0 = time1 - time0"

text \<open>
  The loop of printLog. The \<open>/\<close> and \<open>%\<close> of C++ truncate towards zero:
  \<open>sdiv\<close> and \<open>smod\<close>.
\<close>

fun print_log_entries :: "(Task \<Rightarrow> string) \<Rightarrow> Task list \<Rightarrow> string" where
  "print_log_entries gd [] = []"
| "print_log_entries gd (t # ts) =
     gd t @
     (if startTime t \<noteq> 0 \<and> finishTime t \<noteq> 0 then
        (let seconds = difftime (finishTime t) (startTime t);
             minutes = seconds sdiv 60;
             rem = seconds smod 60
         in '' | Actual: '' @ show_int seconds @ '' s ('' @ show_int minutes @ '' m '' @
            show_int rem @ '' s)'')
      else []) @
     nl @ print_log_entries gd ts"

definition printLog :: "(Task \<Rightarrow> string) \<Rightarrow> Scheduler \<Rightarrow> string" where
  "printLog gd s =
     ''--- Finished Tasks Log ('' @ show_nat (length (finishedLog s)) @ '') ---'' @ nl @
     (if finishedLog s = [] then ''(none)'' @ nl else print_log_entries gd (finishedLog s))"

subsection \<open>Sequences of public operations\<close>

text \<open>
  One call of a public member function. A call of startTask or finishTask carries, after
  the id, the reading of the wall clock that the call sees.
\<close>

datatype operation =
  AddTask string int
| StartTask int int
| FinishTask int int
| ViewStagedTasks
| ViewActiveTasks
| PrintLog

fun call :: "(Task \<Rightarrow> string) \<Rightarrow> operation \<Rightarrow> Scheduler \<Rightarrow> Scheduler \<times> string" where
  "call gd (AddTask d e) s = addTask d e s"
| "call gd (StartTask i now) s = startTask i now s"
| "call gd (FinishTask i now) s = finishTask i now s"
| "call gd ViewStagedTasks s = (s, viewStagedTasks gd s)"
| "call gd ViewActiveTasks s = (s, viewActiveTasks gd s)"
| "call gd PrintLog s = (s, printLog gd s)"

fun calls :: "(Task \<Rightarrow> string) \<Rightarrow> operation list \<Rightarrow> Scheduler \<Rightarrow> Scheduler \<times> string" where
  "calls gd [] s = (s, [])"
| "calls gd (c # cs) s =
     (case call gd c s of (s1, out1) \<Rightarrow>
        (case calls gd cs s1 of (s2, out2) \<Rightarrow> (s2, out1 @ out2)))"

subsection \<open>Invariants of the three compartments\<close>

text \<open>The ids of all Tasks the Scheduler holds, staged first, then active, then finished.\<close>

definition all_ids :: "Scheduler \<Rightarrow> int list" where
  "all_ids s = map task_id (stagedTasks s @ activeTasks s @ finishedLog s)"

definition compartments_disjoint :: "Scheduler \<Rightarrow> bool" where
  "compartments_disjoint s \<longleftrightarrow>
     task_id ` set (stagedTasks s) \<inter> task_id ` set (activeTasks s) = {} \<and>
     task_id ` set (stagedTasks s) \<inter> task_id ` set (finishedLog s) = {} \<and>
     task_id ` set (activeTasks s) \<inter> task_id ` set (finishedLog s) = {}"

definition status_coherent :: "Scheduler \<Rightarrow> bool" where
  "status_coherent s \<longleftrightarrow>
     list_all (\<lambda>t. status t = Staged) (stagedTasks s) \<and>
     list_all (\<lambda>t. status t = Active) (activeTasks s) \<and>
     list_all (\<lambda>t. status t = Finished) (finishedLog s)"

definition sched_inv :: "Scheduler \<Rightarrow> bool" where
  "sched_inv s \<longleftrightarrow>
     distinct (all_ids s) \<and> list_all (\<lambda>i. i < nextId s) (all_ids s) \<and> status_coherent s"

text \<open>The number of addTask calls in a sequence of operations.\<close>

fun count_adds :: "operation list \<Rightarrow> nat" where
  "count_adds [] = 0"
| "count_adds (AddTask d e # cs) = Suc (count_adds cs)"
| "count_adds (c # cs) = count_adds cs"

subsection \<open>The wall clock\<close>

text \<open>
  The clock readings that a sequence of operations sees, in order. The clock never runs
  backwards over the sequence when this list is sorted.
\<close>

fun readings :: "operation list \<Rightarrow> int list" where
  "readings [] = []"
| "readings (StartTask i now # cs) = now # readings cs"
| "readings (FinishTask i now # cs) = now # readings cs"
| "readings (c # cs) = readings cs"

text \<open>
  What the time stamps satisfy while no reading has been below \<open>c\<close> since the clock
  was last read: no active Task started after \<open>c\<close>, and no finished Task finished
  before it started.
\<close>

definition time_inv :: "int \<Rightarrow> Scheduler \<Rightarrow> bool" where
  "time_inv c s \<longleftrightarrow>
     list_all (\<lambda>t. startTime t \<le> c) (activeTasks s) \<and>
     list_all (\<lambda>t. startTime t \<le> finishTime t) (finishedLog s)"

subsection \<open>The log line as the specification words it\<close>

text \<open>
  The segment \<open>" | Actual: S s (M m R s)"\<close> with \<open>S = finishTime - startTime\<close>,
  \<open>M = S / 60\<close> and \<open>R = S mod 60\<close>, the division and the remainder being those of
  C++ (\<open>sdiv\<close> and \<open>smod\<close>, which are \<open>div\<close> and \<open>mod\<close> when \<open>S\<close> is not
  negative), and the line of one finished Task: its rendering, then the segment when both
  time stamps are present, that is, not 0.
\<close>

definition actual_segment_spec :: "Task \<Rightarrow> string" where
  "actual_segment_spec t =
     (let S = finishTime t - startTime t; M = S sdiv 60; R = S smod 60
      in '' | Actual: '' @ show_int S @ '' s ('' @ show_int M @ '' m '' @ show_int R @ '' s)'')"

definition log_line_spec :: "(Task \<Rightarrow> string) \<Rightarrow> Task \<Rightarrow> string" where
  "log_line_spec gd t =
     gd t @ (if startTime t \<noteq> 0 \<and> finishTime t \<noteq> 0 then actual_segment_spec t else []) @ nl"

section \<open>Properties\<close>

subsection \<open>Lookup and removal\<close>

lemmas run_defs =
  addTask_def startTask_def finishTask_def Let_def Task_ctor_def markActive_def
  markFinished_def erase_id_def Scheduler_ctor_def

lemma findTaskById_None: "findTaskById i ts = None \<longleftrightarrow> i \<notin> task_id ` set ts"
  by (induction ts) auto

lemma findTaskById_Some:
  "findTaskById i ts = Some k \<Longrightarrow> k < length ts \<and> task_id (ts ! k) = i"
  by (induction ts arbitrary: k) (auto split: if_splits)

lemma findTaskById_find:
  "findTaskById i ts = Some k \<Longrightarrow> find (\<lambda>x. task_id x = i) ts = Some (ts ! k)"
  by (induction ts arbitrary: k) (auto split: if_splits)

lemma erase_id_update:
  "k < length ts \<Longrightarrow> task_id (ts ! k) = i \<Longrightarrow> task_id y = i \<Longrightarrow>
   erase_id i (ts[k := y]) = erase_id i ts"
  unfolding erase_id_def
proof (induction ts arbitrary: k)
  case Nil
  then show ?case by simp
next
  case (Cons t ts)
  then show ?case by (cases k) auto
qed

lemma startTask_found:
  assumes "findTaskById i (stagedTasks s) = Some k"
  shows "startTask i now s =
    (s\<lparr>stagedTasks := erase_id i (stagedTasks s),
       activeTasks := activeTasks s @ [markActive now (stagedTasks s ! k)]\<rparr>,
     ''Started task [#'' @ show_int i @ ''].'' @ nl)"
  using assms findTaskById_Some [OF assms]
  by (simp add: startTask_def Let_def erase_id_update markActive_def)

lemma finishTask_found:
  assumes "findTaskById i (activeTasks s) = Some k"
  shows "finishTask i now s =
    (s\<lparr>activeTasks := erase_id i (activeTasks s),
       finishedLog := finishedLog s @ [markFinished now (activeTasks s ! k)]\<rparr>,
     ''Finished task [#'' @ show_int i @ ''].'' @ nl)"
  using assms findTaskById_Some [OF assms]
  by (simp add: finishTask_def Let_def erase_id_update markFinished_def)

subsection \<open>The invariant\<close>

lemma sched_inv_ctor: "sched_inv Scheduler_ctor"
  by (simp add: sched_inv_def all_ids_def status_coherent_def Scheduler_ctor_def)

lemma sched_inv_addTask:
  assumes "sched_inv s"
  shows "sched_inv (fst (addTask d e s))"
proof -
  have below: "\<forall>i \<in> set (all_ids s). i < nextId s"
    using assms by (simp add: sched_inv_def list_all_iff)
  then have fresh: "nextId s \<notin> set (all_ids s)"
    by auto
  have ids: "all_ids (fst (addTask d e s)) =
      map task_id (stagedTasks s) @ nextId s # map task_id (activeTasks s @ finishedLog s)"
    by (simp add: all_ids_def addTask_def Let_def Task_ctor_def)
  have "distinct (all_ids (fst (addTask d e s)))"
    using assms fresh unfolding ids by (simp add: sched_inv_def all_ids_def)
  moreover have "set (all_ids (fst (addTask d e s))) = insert (nextId s) (set (all_ids s))"
    unfolding ids by (auto simp: all_ids_def)
  then have "list_all (\<lambda>i. i < nextId (fst (addTask d e s))) (all_ids (fst (addTask d e s)))"
    using below by (auto simp: list_all_iff addTask_def Let_def)
  moreover have "status_coherent (fst (addTask d e s))"
    using assms
    by (simp add: sched_inv_def status_coherent_def addTask_def Let_def Task_ctor_def)
  ultimately show ?thesis
    by (simp add: sched_inv_def)
qed

lemma set_erase_id: "set (erase_id i ts) = {t \<in> set ts. task_id t \<noteq> i}"
  by (auto simp: erase_id_def)

lemma distinct_erase_id: "distinct (map task_id ts) \<Longrightarrow> distinct (map task_id (erase_id i ts))"
  by (simp add: erase_id_def distinct_map_filter)

lemma list_all_erase_id: "list_all P ts \<Longrightarrow> list_all P (erase_id i ts)"
  by (simp add: erase_id_def list_all_iff)

text \<open>
  Moving the Task with id \<open>i\<close> from a compartment \<open>xs\<close> to the tail of the next one
  \<open>ys\<close> keeps the ids distinct.
\<close>

lemma distinct_move:
  assumes "distinct (map task_id (xs @ ys @ zs))" and "i \<in> task_id ` set xs"
    and "task_id t = i"
  shows "distinct (map task_id (erase_id i xs @ (ys @ [t]) @ zs))"
proof -
  have "i \<notin> task_id ` set ys" "i \<notin> task_id ` set zs"
    using assms(1,2) by auto
  moreover have "i \<notin> task_id ` set (erase_id i xs)"
    by (auto simp: set_erase_id)
  moreover have "set (erase_id i xs) \<subseteq> set xs"
    by (auto simp: set_erase_id)
  moreover have "distinct (map task_id (erase_id i xs))"
    using assms(1) by (simp add: distinct_erase_id)
  ultimately show ?thesis
    using assms(1,3) by auto blast+
qed

lemma set_move:
  assumes "i \<in> task_id ` set xs" and "task_id t = i"
  shows "task_id ` set (erase_id i xs @ (ys @ [t]) @ zs) = task_id ` set (xs @ ys @ zs)"
  using assms by (auto simp: set_erase_id)

lemma sched_inv_startTask:
  assumes "sched_inv s"
  shows "sched_inv (fst (startTask i now s))"
proof (cases "findTaskById i (stagedTasks s)")
  case None
  with assms show ?thesis by (simp add: startTask_def)
next
  case (Some k)
  let ?t = "markActive now (stagedTasks s ! k)"
  let ?s = "fst (startTask i now s)"
  note found = findTaskById_Some [OF Some]
  have mem: "i \<in> task_id ` set (stagedTasks s)"
    using Some findTaskById_None [of i "stagedTasks s"] by simp
  have t: "task_id ?t = i" "status ?t = Active"
    using found by (simp_all add: markActive_def)
  have ids: "all_ids ?s =
      map task_id (erase_id i (stagedTasks s) @ (activeTasks s @ [?t]) @ finishedLog s)"
    by (simp add: startTask_found [OF Some] all_ids_def)
  have "distinct (all_ids ?s)"
    unfolding ids using assms mem t(1)
    by (intro distinct_move) (simp_all add: sched_inv_def all_ids_def)
  moreover have "set (all_ids ?s) = set (all_ids s)"
    unfolding ids using set_move [OF mem t(1), of "activeTasks s" "finishedLog s"]
    by (simp add: all_ids_def image_Un)
  then have "list_all (\<lambda>i. i < nextId ?s) (all_ids ?s)"
    using assms by (simp add: sched_inv_def list_all_iff startTask_found [OF Some])
  moreover have "status_coherent ?s"
    using assms t(2)
    by (simp add: sched_inv_def status_coherent_def startTask_found [OF Some] list_all_erase_id)
  ultimately show ?thesis
    by (simp add: sched_inv_def)
qed

lemma sched_inv_finishTask:
  assumes "sched_inv s"
  shows "sched_inv (fst (finishTask i now s))"
proof (cases "findTaskById i (activeTasks s)")
  case None
  with assms show ?thesis by (simp add: finishTask_def)
next
  case (Some k)
  let ?t = "markFinished now (activeTasks s ! k)"
  let ?s = "fst (finishTask i now s)"
  note found = findTaskById_Some [OF Some]
  have mem: "i \<in> task_id ` set (activeTasks s)"
    using Some findTaskById_None [of i "activeTasks s"] by simp
  have t: "task_id ?t = i" "status ?t = Finished"
    using found by (simp_all add: markFinished_def)
  have ids: "all_ids ?s =
      map task_id (stagedTasks s) @ map task_id (erase_id i (activeTasks s) @ (finishedLog s @ [?t]) @ [])"
    by (simp add: finishTask_found [OF Some] all_ids_def)
  have old: "distinct (map task_id (stagedTasks s) @ map task_id (activeTasks s @ finishedLog s @ []))"
    using assms by (simp add: sched_inv_def all_ids_def)
  have same: "task_id ` set (erase_id i (activeTasks s) @ (finishedLog s @ [?t]) @ []) =
      task_id ` set (activeTasks s @ finishedLog s @ [])"
    by (rule set_move [OF mem t(1)])
  have "distinct (map task_id (erase_id i (activeTasks s) @ (finishedLog s @ [?t]) @ []))"
    using old mem t(1) by (intro distinct_move) simp_all
  then have "distinct (all_ids ?s)"
    unfolding ids using old same by (simp only: distinct_append set_map)
  moreover have "set (all_ids ?s) = set (all_ids s)"
    unfolding ids using same by (simp add: all_ids_def image_Un)
  then have "list_all (\<lambda>i. i < nextId ?s) (all_ids ?s)"
    using assms by (simp add: sched_inv_def list_all_iff finishTask_found [OF Some])
  moreover have "status_coherent ?s"
    using assms t(2)
    by (simp add: sched_inv_def status_coherent_def finishTask_found [OF Some] list_all_erase_id)
  ultimately show ?thesis
    by (simp add: sched_inv_def)
qed

lemma sched_inv_call: "sched_inv s \<Longrightarrow> sched_inv (fst (call gd c s))"
  by (cases c) (simp_all add: sched_inv_addTask sched_inv_startTask sched_inv_finishTask)

lemma fst_calls_Cons: "fst (calls gd (c # cs) s) = fst (calls gd cs (fst (call gd c s)))"
  by (simp split: prod.splits)

lemma sched_inv_calls: "sched_inv s \<Longrightarrow> sched_inv (fst (calls gd cs s))"
  by (induction cs arbitrary: s) (simp_all add: fst_calls_Cons sched_inv_call del: calls.simps(2))

lemma sched_inv_disjoint: "sched_inv s \<Longrightarrow> compartments_disjoint s"
  by (auto simp: sched_inv_def all_ids_def compartments_disjoint_def)

text \<open>
  Claim C2. After any sequence of public operations (addTask, startTask, finishTask and
  the three views) on a fresh Scheduler, no id appears in more than one of the three
  compartments, and every Task's status matches the compartment that holds it: Staged in
  stagedTasks, Active in activeTasks, Finished in finishedLog.
\<close>

theorem compartments_disjoint_and_coherent:
  "compartments_disjoint (fst (calls gd cs Scheduler_ctor)) \<and>
   status_coherent (fst (calls gd cs Scheduler_ctor))"
proof -
  have "sched_inv (fst (calls gd cs Scheduler_ctor))"
    by (rule sched_inv_calls [OF sched_inv_ctor])
  then show ?thesis
    by (simp add: sched_inv_disjoint) (simp add: sched_inv_def)
qed

theorem compartments_disjoint_and_coherent_witness:
  "fst (calls description
      [AddTask ''a'' 5, AddTask ''b'' 10, StartTask 1 100, ViewActiveTasks, FinishTask 1 161,
       AddTask ''c'' 1, StartTask 3 170, PrintLog] Scheduler_ctor) =
     \<lparr>nextId = 4,
      stagedTasks = [\<lparr>task_id = 2, description = ''b'', estimate = 10, status = Staged,
                      startTime = 0, finishTime = 0\<rparr>],
      activeTasks = [\<lparr>task_id = 3, description = ''c'', estimate = 1, status = Active,
                      startTime = 170, finishTime = 0\<rparr>],
      finishedLog = [\<lparr>task_id = 1, description = ''a'', estimate = 5, status = Finished,
                      startTime = 100, finishTime = 161\<rparr>]\<rparr> \<and>
   compartments_disjoint (fst (calls description
      [AddTask ''a'' 5, AddTask ''b'' 10, StartTask 1 100, ViewActiveTasks, FinishTask 1 161,
       AddTask ''c'' 1, StartTask 3 170, PrintLog] Scheduler_ctor)) \<and>
   status_coherent (fst (calls description
      [AddTask ''a'' 5, AddTask ''b'' 10, StartTask 1 100, ViewActiveTasks, FinishTask 1 161,
       AddTask ''c'' 1, StartTask 3 170, PrintLog] Scheduler_ctor))"
  using compartments_disjoint_and_coherent [of description
      "[AddTask ''a'' 5, AddTask ''b'' 10, StartTask 1 100, ViewActiveTasks, FinishTask 1 161,
       AddTask ''c'' 1, StartTask 3 170, PrintLog]"]
  by (simp add: addTask_def startTask_def finishTask_def Let_def Task_ctor_def markActive_def
      markFinished_def erase_id_def Scheduler_ctor_def)

subsection \<open>startTask\<close>

lemma erase_id_remove1:
  "distinct (map task_id ts) \<Longrightarrow> find (\<lambda>x. task_id x = i) ts = Some t \<Longrightarrow>
   erase_id i ts = remove1 t ts"
proof (induction ts)
  case Nil
  then show ?case by simp
next
  case (Cons a ts)
  show ?case
  proof (cases "task_id a = i")
    case True
    with Cons.prems have "a = t" "i \<notin> task_id ` set ts" by auto
    then have "filter (\<lambda>x. task_id x \<noteq> i) ts = ts"
      by (intro filter_True) auto
    with True \<open>a = t\<close> show ?thesis by (simp add: erase_id_def)
  next
    case False
    with Cons.prems have "find (\<lambda>x. task_id x = i) ts = Some t" "a \<noteq> t"
      by (auto dest: find_Some_iff [THEN iffD1])
    with Cons False show ?thesis by (simp add: erase_id_def)
  qed
qed

lemma distinct_ids_reachable: "distinct (all_ids (fst (calls gd cs Scheduler_ctor)))"
  using sched_inv_calls [OF sched_inv_ctor, of gd cs] by (simp add: sched_inv_def)

text \<open>
  Claim C1. For every id such that some Task with that id is in stagedTasks, startTask
  marks that Task Active and stamps its startTime with the clock reading, appends it to
  the tail of activeTasks and removes it from stagedTasks, so that the id is in no other
  compartment: not in stagedTasks, not in finishedLog, and in activeTasks at the tail only.
  The Scheduler's ids are distinct, as they are in every state that the public operations
  reach from a fresh Scheduler (\<open>distinct_ids_reachable\<close>); the Task is the first staged
  one with the id, which is then the only one.
\<close>

theorem startTask_moves_staged_task:
  assumes "i \<in> task_id ` set (stagedTasks s)" and "distinct (all_ids s)"
  shows "\<exists>t. find (\<lambda>x. task_id x = i) (stagedTasks s) = Some t \<and>
      task_id (markActive now t) = i \<and>
      status (markActive now t) = Active \<and>
      startTime (markActive now t) = now \<and>
      startTask i now s =
        (s\<lparr>stagedTasks := remove1 t (stagedTasks s),
           activeTasks := activeTasks s @ [markActive now t]\<rparr>,
         ''Started task [#'' @ show_int i @ ''].'' @ nl) \<and>
      i \<notin> task_id ` set (stagedTasks (fst (startTask i now s))) \<and>
      i \<notin> task_id ` set (butlast (activeTasks (fst (startTask i now s)))) \<and>
      i \<notin> task_id ` set (finishedLog (fst (startTask i now s)))"
proof -
  from assms(1) obtain k where k: "findTaskById i (stagedTasks s) = Some k"
    using findTaskById_None [of i "stagedTasks s"] by auto
  let ?t = "stagedTasks s ! k"
  have f: "find (\<lambda>x. task_id x = i) (stagedTasks s) = Some ?t"
    by (rule findTaskById_find [OF k])
  have d: "distinct (map task_id (stagedTasks s))"
    using assms(2) by (simp add: all_ids_def)
  have other: "i \<notin> task_id ` set (activeTasks s)" "i \<notin> task_id ` set (finishedLog s)"
    using assms by (auto simp: all_ids_def)
  have run: "startTask i now s =
        (s\<lparr>stagedTasks := remove1 ?t (stagedTasks s),
           activeTasks := activeTasks s @ [markActive now ?t]\<rparr>,
         ''Started task [#'' @ show_int i @ ''].'' @ nl)"
    by (simp add: startTask_found [OF k] erase_id_remove1 [OF d f])
  have gone: "i \<notin> task_id ` set (stagedTasks (fst (startTask i now s)))"
    by (auto simp: startTask_found [OF k] set_erase_id)
  have "task_id (markActive now ?t) = i"
    using findTaskById_Some [OF k] by (simp add: markActive_def)
  moreover have "status (markActive now ?t) = Active" "startTime (markActive now ?t) = now"
    by (simp_all add: markActive_def)
  ultimately show ?thesis
    using f run gone other by (intro exI [of _ ?t]) (simp add: startTask_found [OF k])
qed

theorem startTask_moves_staged_task_witness:
  "2 \<in> task_id ` set (stagedTasks (fst (calls description
      [AddTask ''a'' 5, AddTask ''b'' 10] Scheduler_ctor))) \<and>
   distinct (all_ids (fst (calls description [AddTask ''a'' 5, AddTask ''b'' 10] Scheduler_ctor))) \<and>
   startTask 2 100 (fst (calls description [AddTask ''a'' 5, AddTask ''b'' 10] Scheduler_ctor)) =
     (\<lparr>nextId = 3,
       stagedTasks = [\<lparr>task_id = 1, description = ''a'', estimate = 5, status = Staged,
                      startTime = 0, finishTime = 0\<rparr>],
       activeTasks = [\<lparr>task_id = 2, description = ''b'', estimate = 10, status = Active,
                      startTime = 100, finishTime = 0\<rparr>],
       finishedLog = []\<rparr>,
      ''Started task [#2].'' @ nl)"
  using startTask_moves_staged_task [of 2
      "fst (calls description [AddTask ''a'' 5, AddTask ''b'' 10] Scheduler_ctor)" 100]
  by (simp add: run_defs all_ids_def show_int_def show_nat.simps)

text \<open>
  Claim C4. For every id with no matching Task in stagedTasks, startTask emits the notice
  "Task [#id] not found in staged tasks." and returns the Scheduler as it was: the three
  compartments and nextId. The model has no error value, as the code has no throw. Every
  transition is all or nothing: startTask and finishTask either move the Task, stamped, and
  emit the confirmation, or change nothing and emit the notice.
\<close>

theorem startTask_unknown_id_changes_nothing:
  "(i \<notin> task_id ` set (stagedTasks s) \<longrightarrow>
      startTask i now s = (s, ''Task [#'' @ show_int i @ ''] not found in staged tasks.'' @ nl)) \<and>
   (i \<in> task_id ` set (stagedTasks s) \<longrightarrow>
      (\<exists>t. find (\<lambda>x. task_id x = i) (stagedTasks s) = Some t \<and>
        startTask i now s =
          (s\<lparr>stagedTasks := erase_id i (stagedTasks s),
             activeTasks := activeTasks s @ [markActive now t]\<rparr>,
           ''Started task [#'' @ show_int i @ ''].'' @ nl))) \<and>
   (i \<notin> task_id ` set (activeTasks s) \<longrightarrow>
      finishTask i now s = (s, ''Task [#'' @ show_int i @ ''] not found in active tasks.'' @ nl)) \<and>
   (i \<in> task_id ` set (activeTasks s) \<longrightarrow>
      (\<exists>t. find (\<lambda>x. task_id x = i) (activeTasks s) = Some t \<and>
        finishTask i now s =
          (s\<lparr>activeTasks := erase_id i (activeTasks s),
             finishedLog := finishedLog s @ [markFinished now t]\<rparr>,
           ''Finished task [#'' @ show_int i @ ''].'' @ nl)))"
proof (intro conjI impI)
  assume "i \<notin> task_id ` set (stagedTasks s)"
  then have "findTaskById i (stagedTasks s) = None"
    by (simp add: findTaskById_None)
  then show "startTask i now s =
      (s, ''Task [#'' @ show_int i @ ''] not found in staged tasks.'' @ nl)"
    by (simp add: startTask_def)
next
  assume "i \<in> task_id ` set (stagedTasks s)"
  then obtain k where k: "findTaskById i (stagedTasks s) = Some k"
    using findTaskById_None [of i "stagedTasks s"] by auto
  show "\<exists>t. find (\<lambda>x. task_id x = i) (stagedTasks s) = Some t \<and>
        startTask i now s =
          (s\<lparr>stagedTasks := erase_id i (stagedTasks s),
             activeTasks := activeTasks s @ [markActive now t]\<rparr>,
           ''Started task [#'' @ show_int i @ ''].'' @ nl)"
    using findTaskById_find [OF k] startTask_found [OF k] by blast
next
  assume "i \<notin> task_id ` set (activeTasks s)"
  then have "findTaskById i (activeTasks s) = None"
    by (simp add: findTaskById_None)
  then show "finishTask i now s =
      (s, ''Task [#'' @ show_int i @ ''] not found in active tasks.'' @ nl)"
    by (simp add: finishTask_def)
next
  assume "i \<in> task_id ` set (activeTasks s)"
  then obtain k where k: "findTaskById i (activeTasks s) = Some k"
    using findTaskById_None [of i "activeTasks s"] by auto
  show "\<exists>t. find (\<lambda>x. task_id x = i) (activeTasks s) = Some t \<and>
        finishTask i now s =
          (s\<lparr>activeTasks := erase_id i (activeTasks s),
             finishedLog := finishedLog s @ [markFinished now t]\<rparr>,
           ''Finished task [#'' @ show_int i @ ''].'' @ nl)"
    using findTaskById_find [OF k] finishTask_found [OF k] by blast
qed

theorem startTask_unknown_id_changes_nothing_witness:
  "99 \<notin> task_id ` set (stagedTasks (fst (calls description
      [AddTask ''x'' 1, AddTask ''y'' 2, StartTask 2 50] Scheduler_ctor))) \<and>
   startTask 99 60 (fst (calls description
      [AddTask ''x'' 1, AddTask ''y'' 2, StartTask 2 50] Scheduler_ctor)) =
     (fst (calls description [AddTask ''x'' 1, AddTask ''y'' 2, StartTask 2 50] Scheduler_ctor),
      ''Task [#99] not found in staged tasks.'' @ nl) \<and>
   1 \<in> task_id ` set (stagedTasks (fst (calls description
      [AddTask ''x'' 1, AddTask ''y'' 2, StartTask 2 50] Scheduler_ctor))) \<and>
   startTask 1 60 (fst (calls description
      [AddTask ''x'' 1, AddTask ''y'' 2, StartTask 2 50] Scheduler_ctor)) =
     (\<lparr>nextId = 3, stagedTasks = [],
       activeTasks = [\<lparr>task_id = 2, description = ''y'', estimate = 2, status = Active,
                      startTime = 50, finishTime = 0\<rparr>,
                     \<lparr>task_id = 1, description = ''x'', estimate = 1, status = Active,
                      startTime = 60, finishTime = 0\<rparr>],
       finishedLog = []\<rparr>,
      ''Started task [#1].'' @ nl) \<and>
   1 \<notin> task_id ` set (activeTasks (fst (calls description
      [AddTask ''x'' 1, AddTask ''y'' 2, StartTask 2 50] Scheduler_ctor))) \<and>
   finishTask 1 60 (fst (calls description
      [AddTask ''x'' 1, AddTask ''y'' 2, StartTask 2 50] Scheduler_ctor)) =
     (fst (calls description [AddTask ''x'' 1, AddTask ''y'' 2, StartTask 2 50] Scheduler_ctor),
      ''Task [#1] not found in active tasks.'' @ nl) \<and>
   2 \<in> task_id ` set (activeTasks (fst (calls description
      [AddTask ''x'' 1, AddTask ''y'' 2, StartTask 2 50] Scheduler_ctor))) \<and>
   finishTask 2 60 (fst (calls description
      [AddTask ''x'' 1, AddTask ''y'' 2, StartTask 2 50] Scheduler_ctor)) =
     (\<lparr>nextId = 3,
       stagedTasks = [\<lparr>task_id = 1, description = ''x'', estimate = 1, status = Staged,
                      startTime = 0, finishTime = 0\<rparr>],
       activeTasks = [],
       finishedLog = [\<lparr>task_id = 2, description = ''y'', estimate = 2, status = Finished,
                      startTime = 50, finishTime = 60\<rparr>]\<rparr>,
      ''Finished task [#2].'' @ nl)"
  using
    startTask_unknown_id_changes_nothing [of 99
      "fst (calls description [AddTask ''x'' 1, AddTask ''y'' 2, StartTask 2 50] Scheduler_ctor)" 60]
    startTask_unknown_id_changes_nothing [of 1
      "fst (calls description [AddTask ''x'' 1, AddTask ''y'' 2, StartTask 2 50] Scheduler_ctor)" 60]
    startTask_unknown_id_changes_nothing [of 2
      "fst (calls description [AddTask ''x'' 1, AddTask ''y'' 2, StartTask 2 50] Scheduler_ctor)" 60]
  by (simp add: run_defs show_int_def show_nat.simps)

text \<open>
  Claim C8. For every id of a Task in stagedTasks, calling startTask twice in succession is
  calling it once, followed by a call that only emits the not-found notice: the second
  call changes no state.
\<close>

theorem startTask_twice:
  assumes "i \<in> task_id ` set (stagedTasks s)"
  shows "startTask i now2 (fst (startTask i now1 s)) =
      (fst (startTask i now1 s),
       ''Task [#'' @ show_int i @ ''] not found in staged tasks.'' @ nl) \<and>
    calls gd [StartTask i now1, StartTask i now2] s =
      (fst (startTask i now1 s),
       ''Started task [#'' @ show_int i @ ''].'' @ nl @
       ''Task [#'' @ show_int i @ ''] not found in staged tasks.'' @ nl)"
proof -
  from assms obtain k where k: "findTaskById i (stagedTasks s) = Some k"
    using findTaskById_None [of i "stagedTasks s"] by auto
  let ?s = "fst (startTask i now1 s)"
  have "i \<notin> task_id ` set (stagedTasks ?s)"
    by (auto simp: startTask_found [OF k] set_erase_id)
  then have "findTaskById i (stagedTasks ?s) = None"
    by (simp add: findTaskById_None)
  then have second: "startTask i now2 ?s =
      (?s, ''Task [#'' @ show_int i @ ''] not found in staged tasks.'' @ nl)"
    by (simp add: startTask_def)
  have first: "snd (startTask i now1 s) = ''Started task [#'' @ show_int i @ ''].'' @ nl"
    by (simp add: startTask_found [OF k])
  show ?thesis
    using first second by (simp add: split_beta del: append.simps)
qed

theorem startTask_twice_witness:
  "1 \<in> task_id ` set (stagedTasks (fst (calls description [AddTask ''a'' 5] Scheduler_ctor))) \<and>
   calls description [StartTask 1 10, StartTask 1 20]
       (fst (calls description [AddTask ''a'' 5] Scheduler_ctor)) =
     (\<lparr>nextId = 2, stagedTasks = [],
       activeTasks = [\<lparr>task_id = 1, description = ''a'', estimate = 5, status = Active,
                      startTime = 10, finishTime = 0\<rparr>],
       finishedLog = []\<rparr>,
      ''Started task [#1].'' @ nl @ ''Task [#1] not found in staged tasks.'' @ nl)"
  using startTask_twice [of 1 "fst (calls description [AddTask ''a'' 5] Scheduler_ctor)"
      20 10 description]
  by (simp add: run_defs show_int_def show_nat.simps)

subsection \<open>finishTask\<close>

text \<open>
  Claim C5. For every id whose Task is in stagedTasks but not in activeTasks, finishTask
  does nothing but emit the notice "Task [#id] not found in active tasks.": the Scheduler
  is returned as it was, so the Task stays in stagedTasks with its status and both of its
  time stamps untouched.
\<close>

theorem finishTask_of_staged_task_is_noop:
  assumes "i \<in> task_id ` set (stagedTasks s)" and "i \<notin> task_id ` set (activeTasks s)"
  shows "finishTask i now s =
      (s, ''Task [#'' @ show_int i @ ''] not found in active tasks.'' @ nl)"
proof -
  from assms(2) have "findTaskById i (activeTasks s) = None"
    by (simp add: findTaskById_None)
  then show ?thesis
    by (simp add: finishTask_def)
qed

theorem finishTask_of_staged_task_is_noop_witness:
  "1 \<in> task_id ` set (stagedTasks (fst (calls description [AddTask ''y'' 1] Scheduler_ctor))) \<and>
   1 \<notin> task_id ` set (activeTasks (fst (calls description [AddTask ''y'' 1] Scheduler_ctor))) \<and>
   finishTask 1 70 (fst (calls description [AddTask ''y'' 1] Scheduler_ctor)) =
     (\<lparr>nextId = 2,
       stagedTasks = [\<lparr>task_id = 1, description = ''y'', estimate = 1, status = Staged,
                      startTime = 0, finishTime = 0\<rparr>],
       activeTasks = [], finishedLog = []\<rparr>,
      ''Task [#1] not found in active tasks.'' @ nl)"
  using finishTask_of_staged_task_is_noop [of 1
      "fst (calls description [AddTask ''y'' 1] Scheduler_ctor)" 70]
  by (simp add: run_defs show_int_def show_nat.simps)

subsection \<open>addTask\<close>

lemma nextId_call: "nextId (fst (call gd c s)) = nextId s + int (count_adds [c])"
  by (cases c)
    (simp_all add: addTask_def startTask_def finishTask_def Let_def split: option.splits)

lemma count_adds_Cons: "count_adds (c # cs) = count_adds [c] + count_adds cs"
  by (cases c) simp_all

lemma nextId_calls: "nextId (fst (calls gd cs s)) = nextId s + int (count_adds cs)"
proof (induction cs arbitrary: s)
  case Nil
  then show ?case by simp
next
  case (Cons c cs)
  show ?case
    unfolding fst_calls_Cons Cons.IH nextId_call
    by (simp add: count_adds_Cons [of c cs])
qed

lemma fst_calls_append:
  "fst (calls gd (cs @ ds) s) = fst (calls gd ds (fst (calls gd cs s)))"
  by (induction cs arbitrary: s) (simp_all add: fst_calls_Cons del: calls.simps(2))

lemma count_adds_only_adds: "count_adds (map (\<lambda>(d, e). AddTask d e) des) = length des"
  by (induction des) auto

lemma staged_ids_only_adds:
  "map task_id (stagedTasks (fst (calls gd (map (\<lambda>(d, e). AddTask d e) des) s))) =
   map task_id (stagedTasks s) @ map (\<lambda>k. nextId s + int k) [0..<length des]"
proof (induction des rule: rev_induct)
  case Nil
  then show ?case by simp
next
  case (snoc x des)
  obtain d e where x: "x = (d, e)" by (cases x)
  let ?s = "fst (calls gd (map (\<lambda>(d, e). AddTask d e) des) s)"
  have "nextId ?s = nextId s + int (length des)"
    by (simp add: nextId_calls count_adds_only_adds)
  then show ?case
    using snoc.IH
    by (simp add: x fst_calls_append addTask_def Let_def Task_ctor_def)
qed

text \<open>
  Claim C3. For every description and estimate, addTask constructs a Task whose id is the
  current nextId, appends it to the tail of stagedTasks and increments nextId. So after any
  sequence of operations on a fresh Scheduler nextId is one more than the number of
  addTask calls made, and the ids that successive addTask calls produce are 1, 2, 3, ...
\<close>

theorem addTask_ids_count_from_one:
  "addTask d e s =
     (s\<lparr>nextId := nextId s + 1, stagedTasks := stagedTasks s @ [Task_ctor (nextId s) d e]\<rparr>,
      ''Added task [#'' @ show_int (nextId s) @ ''] to staged tasks.'' @ nl) \<and>
   task_id (Task_ctor (nextId s) d e) = nextId s \<and>
   nextId (fst (calls gd cs Scheduler_ctor)) = 1 + int (count_adds cs) \<and>
   map task_id (stagedTasks (fst (calls gd (map (\<lambda>(d, e). AddTask d e) des) Scheduler_ctor))) =
     map int [1..<Suc (length des)]"
proof -
  have "map (\<lambda>k. 1 + int k) [0..<n] = map int [1..<Suc n]" for n
    by (induction n) simp_all
  then show ?thesis
    by (simp add: nextId_calls staged_ids_only_adds addTask_def Let_def Task_ctor_def
        Scheduler_ctor_def del: upt_Suc)
qed

theorem addTask_ids_count_from_one_witness:
  "addTask ''c'' 0 (fst (calls description [AddTask ''a'' 5, StartTask 1 100, AddTask ''b'' 10]
      Scheduler_ctor)) =
     (\<lparr>nextId = 4,
       stagedTasks = [\<lparr>task_id = 2, description = ''b'', estimate = 10, status = Staged,
                      startTime = 0, finishTime = 0\<rparr>,
                     \<lparr>task_id = 3, description = ''c'', estimate = 0, status = Staged,
                      startTime = 0, finishTime = 0\<rparr>],
       activeTasks = [\<lparr>task_id = 1, description = ''a'', estimate = 5, status = Active,
                      startTime = 100, finishTime = 0\<rparr>],
       finishedLog = []\<rparr>,
      ''Added task [#3] to staged tasks.'' @ nl) \<and>
   map task_id (stagedTasks (fst (calls description
      (map (\<lambda>(d, e). AddTask d e) [(''a'', 5), (''b'', 10), ([], 0)]) Scheduler_ctor))) =
     [1, 2, 3]"
  using addTask_ids_count_from_one [where d = "''c''" and e = 0
      and s = "fst (calls description [AddTask ''a'' 5, StartTask 1 100, AddTask ''b'' 10]
        Scheduler_ctor)"
      and gd = description and cs = "[]" and des = "[(''a'', 5), (''b'', 10), ([], 0)]"]
  by (simp add: run_defs show_int_def show_nat.simps)

subsection \<open>The views\<close>

text \<open>
  Claim C9. viewStagedTasks, viewActiveTasks and printLog modify no Scheduler state, so in
  every state a view followed at once by the same view prints the same output twice.
\<close>

theorem views_read_only:
  assumes "c = ViewStagedTasks \<or> c = ViewActiveTasks \<or> c = PrintLog"
  shows "fst (call gd c s) = s \<and>
    snd (call gd c (fst (call gd c s))) = snd (call gd c s) \<and>
    calls gd [c, c] s = (s, snd (call gd c s) @ snd (call gd c s))"
  using assms by auto

theorem views_read_only_witness:
  "fst (call description PrintLog
      (fst (calls description [AddTask ''a'' 5, StartTask 1 100, FinishTask 1 161] Scheduler_ctor))) =
     fst (calls description [AddTask ''a'' 5, StartTask 1 100, FinishTask 1 161] Scheduler_ctor) \<and>
   snd (calls description [PrintLog, PrintLog]
      (fst (calls description [AddTask ''a'' 5, StartTask 1 100, FinishTask 1 161] Scheduler_ctor))) =
     (''--- Finished Tasks Log (1) ---'' @ nl @ ''a | Actual: 61 s (1 m 1 s)'' @ nl) @
     (''--- Finished Tasks Log (1) ---'' @ nl @ ''a | Actual: 61 s (1 m 1 s)'' @ nl)"
  using views_read_only [of PrintLog description
      "fst (calls description [AddTask ''a'' 5, StartTask 1 100, FinishTask 1 161] Scheduler_ctor)"]
  by (simp add: run_defs printLog_def difftime_def show_int_def show_nat.simps
      signed_divide_int_def signed_modulo_int_def)

lemma print_log_entries_concat:
  "print_log_entries gd ts = concat (map (log_line_spec gd) ts)"
  by (induction ts) (simp_all add: log_line_spec_def actual_segment_spec_def difftime_def Let_def)

lemma sdiv_smod_nonneg:
  fixes S :: int
  assumes "0 \<le> S"
  shows "S sdiv 60 = S div 60 \<and> S smod 60 = S mod 60"
  using assms by (simp add: signed_divide_int_def signed_modulo_int_def sgn_if)

text \<open>
  Claim C6. printLog emits a header with the number of Tasks in finishedLog, then (the
  line "(none)" when there is none) for each finished Task its getDetails rendering,
  followed, when both startTime and finishTime are present (not 0), by the segment
  " | Actual: S s (M m R s)", where S = finishTime - startTime, M = S / 60 and R = S mod 60;
  the segment is left out when either time stamp is absent. The division and the remainder
  are those of C++, which are \<open>div\<close> and \<open>mod\<close> for a Task that did not finish before
  it started.
\<close>

theorem printLog_format:
  "printLog gd s =
     ''--- Finished Tasks Log ('' @ show_nat (length (finishedLog s)) @ '') ---'' @ nl @
     (if finishedLog s = [] then ''(none)'' @ nl
      else concat (map (log_line_spec gd) (finishedLog s))) \<and>
   log_line_spec gd t =
     (if startTime t \<noteq> 0 \<and> finishTime t \<noteq> 0 then
        gd t @ '' | Actual: '' @ show_int (finishTime t - startTime t) @ '' s ('' @
          show_int ((finishTime t - startTime t) sdiv 60) @ '' m '' @
          show_int ((finishTime t - startTime t) smod 60) @ '' s)'' @ nl
      else gd t @ nl) \<and>
   (startTime t \<le> finishTime t \<longrightarrow>
      (finishTime t - startTime t) sdiv 60 = (finishTime t - startTime t) div 60 \<and>
      (finishTime t - startTime t) smod 60 = (finishTime t - startTime t) mod 60)"
proof (intro conjI impI)
  show "printLog gd s =
     ''--- Finished Tasks Log ('' @ show_nat (length (finishedLog s)) @ '') ---'' @ nl @
     (if finishedLog s = [] then ''(none)'' @ nl
      else concat (map (log_line_spec gd) (finishedLog s)))"
    by (simp only: printLog_def print_log_entries_concat)
  show "log_line_spec gd t =
     (if startTime t \<noteq> 0 \<and> finishTime t \<noteq> 0 then
        gd t @ '' | Actual: '' @ show_int (finishTime t - startTime t) @ '' s ('' @
          show_int ((finishTime t - startTime t) sdiv 60) @ '' m '' @
          show_int ((finishTime t - startTime t) smod 60) @ '' s)'' @ nl
      else gd t @ nl)"
    by (simp add: log_line_spec_def actual_segment_spec_def Let_def)
next
  assume "startTime t \<le> finishTime t"
  then have "0 \<le> finishTime t - startTime t" by simp
  then show "(finishTime t - startTime t) sdiv 60 = (finishTime t - startTime t) div 60"
    and "(finishTime t - startTime t) smod 60 = (finishTime t - startTime t) mod 60"
    using sdiv_smod_nonneg by blast+
qed

theorem printLog_format_witness:
  "printLog description
      (fst (calls description
        [AddTask ''a'' 5, AddTask ''b'' 10, StartTask 1 100, StartTask 2 130, FinishTask 1 161,
         FinishTask 2 3800] Scheduler_ctor)) =
     ''--- Finished Tasks Log (2) ---'' @ nl @
     ''a | Actual: 61 s (1 m 1 s)'' @ nl @
     ''b | Actual: 3670 s (61 m 10 s)'' @ nl \<and>
   (3670::int) sdiv 60 = 3670 div 60 \<and> (3670::int) smod 60 = 3670 mod 60"
  using printLog_format [of description
      "fst (calls description
        [AddTask ''a'' 5, AddTask ''b'' 10, StartTask 1 100, StartTask 2 130, FinishTask 1 161,
         FinishTask 2 3800] Scheduler_ctor)"
      "\<lparr>task_id = 2, description = ''b'', estimate = 10, status = Finished,
        startTime = 130, finishTime = 3800\<rparr>"]
  by (simp add: run_defs log_line_spec_def actual_segment_spec_def show_int_def show_nat.simps
      signed_divide_int_def signed_modulo_int_def)

text \<open>
  Claim C10. printLog decides whether a time stamp is present by comparing it with 0: the
  Actual segment is appended if and only if startTime and finishTime are both nonzero. So a
  Task started when the clock read 0 (the Unix epoch) is printed without its Actual segment
  although both of its time stamps were stamped.
\<close>

theorem printLog_epoch_timestamp_has_no_actual_segment:
  "(print_log_entries gd [t] = gd t @ nl \<longleftrightarrow> startTime t = 0 \<or> finishTime t = 0) \<and>
   (startTime t \<noteq> 0 \<and> finishTime t \<noteq> 0 \<longrightarrow>
      print_log_entries gd [t] = gd t @ actual_segment_spec t @ nl) \<and>
   finishedLog (fst (calls gd [AddTask d e, StartTask 1 0, FinishTask 1 now] Scheduler_ctor)) =
     [\<lparr>task_id = 1, description = d, estimate = e, status = Finished,
       startTime = 0, finishTime = now\<rparr>] \<and>
   printLog gd (fst (calls gd [AddTask d e, StartTask 1 0, FinishTask 1 now] Scheduler_ctor)) =
     ''--- Finished Tasks Log (1) ---'' @ nl @
     gd \<lparr>task_id = 1, description = d, estimate = e, status = Finished,
          startTime = 0, finishTime = now\<rparr> @ nl"
proof -
  have seg: "actual_segment_spec t \<noteq> []"
    by (simp add: actual_segment_spec_def Let_def)
  have line: "print_log_entries gd [t] = log_line_spec gd t"
    by (simp add: print_log_entries_concat)
  have run: "fst (calls gd [AddTask d e, StartTask 1 0, FinishTask 1 now] Scheduler_ctor) =
      \<lparr>nextId = 2, stagedTasks = [], activeTasks = [],
       finishedLog = [\<lparr>task_id = 1, description = d, estimate = e, status = Finished,
         startTime = 0, finishTime = now\<rparr>]\<rparr>"
    by (simp add: addTask_def startTask_def finishTask_def Let_def Task_ctor_def markActive_def
        markFinished_def erase_id_def Scheduler_ctor_def)
  have one: "show_nat (Suc 0) = ''1''"
    by (simp add: show_nat.simps)
  show ?thesis
    unfolding run line using seg
    by (simp add: log_line_spec_def printLog_def one)
qed

theorem printLog_epoch_timestamp_has_no_actual_segment_witness:
  "print_log_entries description
      [\<lparr>task_id = 1, description = ''a'', estimate = 5, status = Finished,
        startTime = 0, finishTime = 61\<rparr>] = ''a'' @ nl \<and>
   print_log_entries description
      [\<lparr>task_id = 1, description = ''a'', estimate = 5, status = Finished,
        startTime = 1, finishTime = 62\<rparr>] = ''a | Actual: 61 s (1 m 1 s)'' @ nl \<and>
   printLog description
      (fst (calls description [AddTask ''a'' 5, StartTask 1 0, FinishTask 1 61] Scheduler_ctor)) =
     ''--- Finished Tasks Log (1) ---'' @ nl @ ''a'' @ nl"
  using
    printLog_epoch_timestamp_has_no_actual_segment [of description
      "\<lparr>task_id = 1, description = ''a'', estimate = 5, status = Finished,
        startTime = 0, finishTime = 61\<rparr>" "''a''" 5 61]
    printLog_epoch_timestamp_has_no_actual_segment [of description
      "\<lparr>task_id = 1, description = ''a'', estimate = 5, status = Finished,
        startTime = 1, finishTime = 62\<rparr>" "''a''" 5 61]
  by (simp add: actual_segment_spec_def show_int_def show_nat.simps
      signed_divide_int_def signed_modulo_int_def)

subsection \<open>Time stamps\<close>

lemma time_inv_call_no_clock:
  assumes "time_inv c s" and "readings [op] = []"
  shows "time_inv c (fst (call gd op s))"
  using assms by (cases op) (simp_all add: time_inv_def addTask_def Let_def)

lemma time_inv_startTask:
  assumes "time_inv c s" and "c \<le> now"
  shows "time_inv now (fst (startTask i now s))"
proof (cases "findTaskById i (stagedTasks s)")
  case None
  with assms show ?thesis
    by (auto simp: startTask_def time_inv_def list_all_iff)
next
  case (Some k)
  with assms show ?thesis
    by (auto simp: startTask_found [OF Some] time_inv_def list_all_iff markActive_def)
qed

lemma time_inv_finishTask:
  assumes "time_inv c s" and "c \<le> now"
  shows "time_inv now (fst (finishTask i now s))"
proof (cases "findTaskById i (activeTasks s)")
  case None
  with assms show ?thesis
    by (auto simp: finishTask_def time_inv_def list_all_iff)
next
  case (Some k)
  from findTaskById_Some [OF Some] have "activeTasks s ! k \<in> set (activeTasks s)"
    by simp
  with assms have "startTime (activeTasks s ! k) \<le> now"
    by (auto simp: time_inv_def list_all_iff)
  with assms show ?thesis
    by (auto simp: finishTask_found [OF Some] time_inv_def list_all_iff markFinished_def
        set_erase_id)
qed

lemma time_inv_calls:
  assumes "time_inv c s" and "sorted (readings cs)" and "\<forall>n \<in> set (readings cs). c \<le> n"
  shows "\<exists>c'. time_inv c' (fst (calls gd cs s))"
  using assms
proof (induction cs arbitrary: c s)
  case Nil
  then show ?case by auto
next
  case (Cons op cs)
  show ?case
  proof (cases op)
    case (StartTask i now)
    with Cons.prems have "time_inv now (fst (call gd op s))"
      by (simp add: time_inv_startTask)
    moreover from Cons.prems StartTask
    have "sorted (readings cs)" "\<forall>n \<in> set (readings cs). now \<le> n"
      by simp_all
    ultimately show ?thesis
      unfolding fst_calls_Cons by (rule Cons.IH)
  next
    case (FinishTask i now)
    with Cons.prems have "time_inv now (fst (call gd op s))"
      by (simp add: time_inv_finishTask)
    moreover from Cons.prems FinishTask
    have "sorted (readings cs)" "\<forall>n \<in> set (readings cs). now \<le> n"
      by simp_all
    ultimately show ?thesis
      unfolding fst_calls_Cons by (rule Cons.IH)
  next
    case (AddTask d e)
    with Cons.prems have "time_inv c (fst (call gd op s))"
      by (intro time_inv_call_no_clock) simp_all
    moreover from Cons.prems AddTask
    have "sorted (readings cs)" "\<forall>n \<in> set (readings cs). c \<le> n"
      by simp_all
    ultimately show ?thesis
      unfolding fst_calls_Cons by (rule Cons.IH)
  next
    case ViewStagedTasks
    with Cons.prems show ?thesis
      unfolding fst_calls_Cons by (simp add: Cons.IH)
  next
    case ViewActiveTasks
    with Cons.prems show ?thesis
      unfolding fst_calls_Cons by (simp add: Cons.IH)
  next
    case PrintLog
    with Cons.prems show ?thesis
      unfolding fst_calls_Cons by (simp add: Cons.IH)
  qed
qed

text \<open>
  Claim C7, amended. Provided the clock readings that successive operations see never
  decrease, after any sequence of public operations on a fresh Scheduler every Task in
  finishedLog has finishTime greater than or equal to startTime.
\<close>

theorem finish_after_start_under_monotone_clock:
  assumes "sorted (readings cs)"
  shows "\<forall>t \<in> set (finishedLog (fst (calls gd cs Scheduler_ctor))). startTime t \<le> finishTime t"
proof (cases "readings cs")
  case Nil
  have "time_inv 0 Scheduler_ctor"
    by (simp add: time_inv_def Scheduler_ctor_def)
  from time_inv_calls [OF this assms, of gd] Nil show ?thesis
    by (auto simp: time_inv_def list_all_iff)
next
  case (Cons n ns)
  have "time_inv n Scheduler_ctor"
    by (simp add: time_inv_def Scheduler_ctor_def)
  moreover have "\<forall>m \<in> set (readings cs). n \<le> m"
    using assms Cons by auto
  ultimately show ?thesis
    using time_inv_calls [OF _ assms, of n Scheduler_ctor gd]
    by (auto simp: time_inv_def list_all_iff)
qed

theorem finish_after_start_under_monotone_clock_witness:
  "sorted (readings [AddTask ''a'' 5, StartTask 1 100, PrintLog, FinishTask 1 161]) \<and>
   finishedLog (fst (calls description
      [AddTask ''a'' 5, StartTask 1 100, PrintLog, FinishTask 1 161] Scheduler_ctor)) =
     [\<lparr>task_id = 1, description = ''a'', estimate = 5, status = Finished,
       startTime = 100, finishTime = 161\<rparr>] \<and>
   startTime (hd (finishedLog (fst (calls description
      [AddTask ''a'' 5, StartTask 1 100, PrintLog, FinishTask 1 161] Scheduler_ctor))))
     \<le> finishTime (hd (finishedLog (fst (calls description
      [AddTask ''a'' 5, StartTask 1 100, PrintLog, FinishTask 1 161] Scheduler_ctor))))"
  using finish_after_start_under_monotone_clock [of
      "[AddTask ''a'' 5, StartTask 1 100, PrintLog, FinishTask 1 161]" description]
  by (simp add: run_defs)

text \<open>
  Without the proviso the claim fails: the wall clock may be set back between startTask
  and finishTask.
\<close>

theorem finish_before_start_counterexample:
  "finishedLog (fst (calls description
      [AddTask ''a'' 5, StartTask 1 100, FinishTask 1 39] Scheduler_ctor)) =
     [\<lparr>task_id = 1, description = ''a'', estimate = 5, status = Finished,
       startTime = 100, finishTime = 39\<rparr>] \<and>
   \<not> startTime \<lparr>task_id = 1, description = ''a'', estimate = 5, status = Finished,
       startTime = 100, finishTime = 39\<rparr>
     \<le> finishTime \<lparr>task_id = 1, description = ''a'', estimate = 5, status = Finished,
       startTime = 100, finishTime = (39::int)\<rparr>"
  by (simp add: addTask_def startTask_def finishTask_def Let_def Task_ctor_def markActive_def
      markFinished_def erase_id_def Scheduler_ctor_def)

end
